theory Spec2Isabelle
  imports Complex_Main "HOL-Library.Word"
begin

section \<open>Data model of \<^verbatim>\<open>src/App.tsx\<close>\<close>

text \<open>
  The numerical core of the application: the tensor of samples, the known mask, the
  damaged view, the Gauss-Seidel/SOR solver \<^verbatim>\<open>inpaintGaussSeidel\<close>, the metric
  \<^verbatim>\<open>rmseOnMissing\<close> and the handler \<^verbatim>\<open>handleApplyDamage\<close> that builds the known
  mask.

  Samples (\<^verbatim>\<open>number\<close>, the elements of a \<^verbatim>\<open>Float32Array\<close>) are modelled as
  real numbers: the rounding of IEEE arithmetic is abstracted. Dimensions and indices
  are natural numbers, the loop counter and \<^verbatim>\<open>maxIter\<close> are integers, the elements
  of a \<^verbatim>\<open>Uint8Array\<close> are 8-bit words. A typed array is a list: a write beyond its
  end is ignored, as \<open>xs[i := v]\<close> does; a read of a sample beyond its end is
  \<^verbatim>\<open>undefined\<close> in the source and has no counterpart among the reals, so every
  statement that depends on the value of such a read assumes the tensor well formed
  (\<open>wf_tensor\<close>), where all reads are in range.
\<close>

type_synonym uint8 = "8 word"

record Tensor =
  H :: nat
  W :: nat
  C :: nat
  data :: "real list"

record InpaintResult =
  reconstructed :: Tensor
  residuals :: "real list"
  rmse :: real
  iterations :: int

definition wf_tensor :: "Tensor \<Rightarrow> bool" where
  "wf_tensor t \<longleftrightarrow> length (data t) = H t * W t * C t"

text \<open>
  \<^verbatim>\<open>known[i] === v\<close> on a \<^verbatim>\<open>Uint8Array\<close>: beyond the end of the array the read is
  \<^verbatim>\<open>undefined\<close>, which is strictly equal to no number.
\<close>

definition mask_is :: "uint8 list \<Rightarrow> nat \<Rightarrow> uint8 \<Rightarrow> bool" where
  "mask_is known i v \<longleftrightarrow> i < length known \<and> known ! i = v"

section \<open>Damage simulator\<close>

text \<open>\<^verbatim>\<open>makeDamagedView\<close>: a copy of the original whose unknown pixels are black.\<close>

definition blacken :: "uint8 list \<Rightarrow> nat \<Rightarrow> real list \<Rightarrow> real list" where
  "blacken known i d =
     (if mask_is known i 0 then d[i * 3 + 0 := 0, i * 3 + 1 := 0, i * 3 + 2 := 0] else d)"

definition makeDamagedView :: "Tensor \<Rightarrow> uint8 list \<Rightarrow> Tensor" where
  "makeDamagedView original known =
     \<lparr>H = H original, W = W original, C = C original,
      data = fold (blacken known) [0..<H original * W original] (data original)\<rparr>"

text \<open>
  \<^verbatim>\<open>randomKnownMask\<close>: the draws of \<^verbatim>\<open>Math.random()\<close> are a parameter, the
  \<open>i\<close>-th draw being \<open>rnd i\<close>.
\<close>

definition randomKnownMask :: "(nat \<Rightarrow> real) \<Rightarrow> nat \<Rightarrow> nat \<Rightarrow> real \<Rightarrow> uint8 list" where
  "randomKnownMask rnd w h damagePercent =
     map (\<lambda>i. if rnd i > damagePercent / 100 then 1 else 0) [0..<w * h]"

section \<open>Quality metric\<close>

text \<open>\<^verbatim>\<open>rmseOnMissing\<close>: the state of its loop is \<open>(sumSqError, count)\<close>.\<close>

definition sq_channel :: "Tensor \<Rightarrow> Tensor \<Rightarrow> nat \<Rightarrow> nat \<Rightarrow> nat \<Rightarrow> real \<Rightarrow> real" where
  "sq_channel original recon ch i c sumSqError =
     (let diff = data original ! (i * ch + c) - data recon ! (i * ch + c)
      in sumSqError + diff * diff)"

definition rmse_pixel :: "Tensor \<Rightarrow> Tensor \<Rightarrow> uint8 list \<Rightarrow> nat \<Rightarrow> nat \<Rightarrow> real \<times> nat \<Rightarrow> real \<times> nat" where
  "rmse_pixel original recon known ch i st =
     (case st of (sumSqError, count) \<Rightarrow>
        if mask_is known i 0
        then (fold (sq_channel original recon ch i) [0..<ch] sumSqError, count + ch)
        else (sumSqError, count))"

definition rmseOnMissing :: "Tensor \<Rightarrow> Tensor \<Rightarrow> uint8 list \<Rightarrow> real" where
  "rmseOnMissing original recon known =
     (case fold (rmse_pixel original recon known (C original)) [0..<H original * W original] (0, 0)
      of (sumSqError, count) \<Rightarrow>
        if count > 0 then sqrt (sumSqError / real count) else 0)"

section \<open>Reconstruction engine\<close>

definition omega :: real where
  "omega = 1.25"

text \<open>
  The four neighbours of pixel \<open>(y, x)\<close>, in the order up, down, left, right. The
  source computes them on JavaScript numbers, where \<open>y - 1\<close> may be \<open>-1\<close>; the model
  computes on integers and converts the clamped coordinate back.
\<close>

definition neighbors :: "nat \<Rightarrow> nat \<Rightarrow> nat \<Rightarrow> nat \<Rightarrow> (nat \<times> nat) list" where
  "neighbors h w y x =
     [(nat (max 0 (int y - 1)), x),
      (nat (min (int h - 1) (int y + 1)), x),
      (y, nat (max 0 (int x - 1))),
      (y, nat (min (int w - 1) (int x + 1)))]"

text \<open>The state of one sweep is \<open>(U, totalChange, changeCount)\<close>.\<close>

type_synonym sweep_state = "real list \<times> real \<times> nat"

text \<open>Known pixel: the damaged samples are written back into \<open>U\<close>.\<close>

definition clamp_known :: "Tensor \<Rightarrow> nat \<Rightarrow> real list \<Rightarrow> real list" where
  "clamp_known damaged idx U =
     fold (\<lambda>c U. U[idx * C damaged + c := data damaged ! (idx * C damaged + c)])
       [0..<C damaged] U"

text \<open>Unknown pixel, one channel: mean of the four neighbours, then over-relaxation.\<close>

definition relax_channel :: "Tensor \<Rightarrow> nat \<Rightarrow> nat \<Rightarrow> nat \<Rightarrow> sweep_state \<Rightarrow> sweep_state" where
  "relax_channel damaged y x c st =
     (case st of (U, totalChange, changeCount) \<Rightarrow>
        let idx = y * W damaged + x;
            sum = fold (\<lambda>(ny, nx) s. s + U ! ((ny * W damaged + nx) * C damaged + c))
                    (neighbors (H damaged) (W damaged) y x) 0;
            oldVal = U ! (idx * C damaged + c);
            newVal = sum / 4;
            U' = U[idx * C damaged + c := oldVal + omega * (newVal - oldVal)]
        in (U', totalChange + \<bar>U' ! (idx * C damaged + c) - oldVal\<bar>, changeCount + 1))"

definition sweep_pixel :: "Tensor \<Rightarrow> uint8 list \<Rightarrow> nat \<Rightarrow> nat \<Rightarrow> sweep_state \<Rightarrow> sweep_state" where
  "sweep_pixel damaged known y x st =
     (if mask_is known (y * W damaged + x) 1
      then (case st of (U, totalChange, changeCount) \<Rightarrow>
              (clamp_known damaged (y * W damaged + x) U, totalChange, changeCount))
      else fold (relax_channel damaged y x) [0..<C damaged] st)"

definition sweep_row :: "Tensor \<Rightarrow> uint8 list \<Rightarrow> nat \<Rightarrow> sweep_state \<Rightarrow> sweep_state" where
  "sweep_row damaged known y st = fold (sweep_pixel damaged known y) [0..<W damaged] st"

text \<open>One iteration of the outer loop: all rows, from fresh counters.\<close>

definition sweep :: "Tensor \<Rightarrow> uint8 list \<Rightarrow> real list \<Rightarrow> sweep_state" where
  "sweep damaged known U = fold (sweep_row damaged known) [0..<H damaged] (U, 0, 0)"

definition avgChange :: "sweep_state \<Rightarrow> real" where
  "avgChange st =
     (case st of (U, totalChange, changeCount) \<Rightarrow>
        if changeCount > 0 then totalChange / real changeCount else 0)"

text \<open>
  The \<^verbatim>\<open>for (iter = 0; iter < maxIter; iter++)\<close> loop with its \<^verbatim>\<open>break\<close>. The
  result is the value of \<open>iter\<close> when the loop is left, the buffer and the residuals.
\<close>

function gs_loop ::
  "Tensor \<Rightarrow> uint8 list \<Rightarrow> int \<Rightarrow> real \<Rightarrow> int \<Rightarrow> real list \<Rightarrow> real list
     \<Rightarrow> int \<times> real list \<times> real list" where
  "gs_loop damaged known maxIter tol iter U res =
     (if iter < maxIter
      then (let st = sweep damaged known U;
                res' = res @ [avgChange st]
            in if avgChange st < tol
               then (iter, fst st, res')
               else gs_loop damaged known maxIter tol (iter + 1) (fst st) res')
      else (iter, U, res))"
  by pat_completeness auto
termination
  by (relation "measure (\<lambda>(damaged, known, maxIter, tol, iter, U, res). nat (maxIter - iter))")
    auto

declare gs_loop.simps [simp del]

definition inpaintGaussSeidel ::
  "Tensor \<Rightarrow> uint8 list \<Rightarrow> real \<Rightarrow> real \<Rightarrow> int \<Rightarrow> real \<Rightarrow> InpaintResult" where
  "inpaintGaussSeidel damaged known lambda beta maxIter tol =
     (case gs_loop damaged known maxIter tol 0 (data damaged) [] of (iter, U, res) \<Rightarrow>
        let recon = \<lparr>H = H damaged, W = W damaged, C = C damaged, data = U\<rparr>
        in \<lparr>reconstructed = recon, residuals = res,
            rmse = rmseOnMissing damaged recon known, iterations = iter + 1\<rparr>)"

text \<open>
  The buffer after one sweep, and the residual that the sweep started from buffer \<open>U\<close>
  appends. The buffer after \<open>n\<close> sweeps is \<open>(sweep_data damaged known ^^ n) U\<close>.
\<close>

definition sweep_data :: "Tensor \<Rightarrow> uint8 list \<Rightarrow> real list \<Rightarrow> real list" where
  "sweep_data damaged known U = fst (sweep damaged known U)"

definition residual_of :: "Tensor \<Rightarrow> uint8 list \<Rightarrow> real list \<Rightarrow> real" where
  "residual_of damaged known U = avgChange (sweep damaged known U)"

text \<open>
  The buffer at the moment a sweep started from \<open>U\<close> reaches pixel \<open>(y, x)\<close>: the rows
  above are done, and so are the pixels to the left in row \<open>y\<close>.
\<close>

definition before_pixel :: "Tensor \<Rightarrow> uint8 list \<Rightarrow> real list \<Rightarrow> nat \<Rightarrow> nat \<Rightarrow> real list" where
  "before_pixel damaged known U y x =
     fst (fold (sweep_pixel damaged known y) [0..<x]
            (fold (sweep_row damaged known) [0..<y] (U, 0, 0)))"

section \<open>Mask construction in the handler\<close>

datatype error = EmptyMaskError

record AppState =
  originalTensor :: "Tensor option"
  manualMask :: "uint8 list option"
  knownMask :: "uint8 list option"
  damagedTensor :: "Tensor option"
  reconstructedTensor :: "Tensor option"
  shownResiduals :: "real list"
  useManualMask :: bool
  damagePercent :: real

text \<open>\<^verbatim>\<open>manualMask.reduce((sum, val) => sum + val, 0)\<close>: the sum is a number, not a byte.\<close>

definition paintedCount :: "uint8 list \<Rightarrow> nat" where
  "paintedCount m = fold (\<lambda>val sum. sum + unat val) m 0"

definition invert_mask :: "uint8 list \<Rightarrow> uint8 list" where
  "invert_mask m = map (\<lambda>v. if v = 1 then 0 else 1) m"

definition apply_known :: "Tensor \<Rightarrow> uint8 list \<Rightarrow> AppState \<Rightarrow> AppState" where
  "apply_known t known s =
     s\<lparr>knownMask := Some known, damagedTensor := Some (makeDamagedView t known),
       reconstructedTensor := None, shownResiduals := []\<rparr>"

text \<open>
  \<^verbatim>\<open>handleApplyDamage\<close>. The alert followed by \<^verbatim>\<open>return\<close> is the error
  \<open>EmptyMaskError\<close>: no setter has run, the state is the one before the call. Without
  an image the handler returns at once and the state is unchanged.
\<close>

definition handleApplyDamage :: "(nat \<Rightarrow> real) \<Rightarrow> AppState \<Rightarrow> error + AppState" where
  "handleApplyDamage rnd s =
     (case originalTensor s of
        None \<Rightarrow> Inr s
      | Some t \<Rightarrow>
          (case (if useManualMask s then manualMask s else None) of
             Some m \<Rightarrow>
               if paintedCount m = 0 then Inl EmptyMaskError
               else Inr (apply_known t (invert_mask m) s)
           | None \<Rightarrow>
               Inr (apply_known t (randomKnownMask rnd (W t) (H t) (damagePercent s)) s)))"

section \<open>Concrete inputs\<close>

text \<open>
  A white image of one row and two pixels whose right pixel is unknown, its damaged view,
  and the same image with every pixel known.
\<close>

definition white2 :: Tensor where
  "white2 = \<lparr>H = 1, W = 2, C = 3, data = [1, 1, 1, 1, 1, 1]\<rparr>"

definition right_unknown :: "uint8 list" where
  "right_unknown = [1, 0]"

definition damaged2 :: Tensor where
  "damaged2 = \<lparr>H = 1, W = 2, C = 3, data = [1, 1, 1, 0, 0, 0]\<rparr>"

definition all_known :: "uint8 list" where
  "all_known = [1, 1]"

text \<open>
  The state of the application after the white image is loaded and the manual mask is
  chosen, with the right pixel painted and with nothing painted.
\<close>

definition app_painted :: AppState where
  "app_painted = \<lparr>originalTensor = Some white2, manualMask = Some [0, 1], knownMask = None,
     damagedTensor = None, reconstructedTensor = None, shownResiduals = [],
     useManualMask = True, damagePercent = 30\<rparr>"

definition app_unpainted :: AppState where
  "app_unpainted = \<lparr>originalTensor = Some white2, manualMask = Some [0, 0], knownMask = None,
     damagedTensor = None, reconstructedTensor = None, shownResiduals = [],
     useManualMask = True, damagePercent = 30\<rparr>"

section \<open>Auxiliary facts\<close>

subsection \<open>Folds and indices\<close>

lemma fold_invariant:
  "(\<And>x s. x \<in> set xs \<Longrightarrow> P s \<Longrightarrow> P (f x s)) \<Longrightarrow> P s \<Longrightarrow> P (fold f xs s)"
  by (induction xs arbitrary: s) simp_all

lemma upt_split: "i < n \<Longrightarrow> [0..<n] = [0..<i] @ i # [Suc i..<n]"
  using upt_add_eq_append[of 0 i "n - i"] by (simp add: upt_conv_Cons)

lemma pixel_index_bound: "y < h \<Longrightarrow> x < w \<Longrightarrow> c < ch \<Longrightarrow> (y * w + x) * ch + c < h * w * (ch::nat)"
proof -
  assume a: "y < h" "x < w" "c < ch"
  then have "y * w + x < h * w"
    by (metis add.commute add_less_cancel_left less_le_trans mult.commute mult_Suc_right mult_le_mono1 Suc_leI)
  then have "Suc (y * w + x) * ch \<le> h * w * ch" by (intro mult_le_mono1) simp
  with a show ?thesis by simp
qed

lemma channel_index_neq: "c < ch \<Longrightarrow> c' < ch \<Longrightarrow> i \<noteq> i' \<or> c \<noteq> c' \<Longrightarrow> i * ch + c \<noteq> i' * ch + (c'::nat)"
proof
  assume a: "c < ch" "c' < ch" "i \<noteq> i' \<or> c \<noteq> c'" and e: "i * ch + c = i' * ch + c'"
  from e have "(i * ch + c) div ch = (i' * ch + c') div ch" by simp
  with a have "i = i'" by simp
  moreover from e have "(i * ch + c) mod ch = (i' * ch + c') mod ch" by simp
  with a have "c = c'" by simp
  ultimately show False using a by simp
qed

lemma pixel_neq: "x < w \<Longrightarrow> x' < w \<Longrightarrow> y \<noteq> y' \<or> x \<noteq> x' \<Longrightarrow> y * w + x \<noteq> y' * w + (x'::nat)"
  using channel_index_neq[of x w x' y y'] by blast

subsection \<open>Known pixels: the write-back\<close>

lemma clamp_known_length: "length (clamp_known d idx U) = length U"
  unfolding clamp_known_def
  by (rule fold_invariant[where P = "\<lambda>V. length V = length U"]) simp_all

lemma clamp_known_upto:
  "fold (\<lambda>c U. U[idx * ch + c := src ! (idx * ch + c)]) [0..<n] U ! k =
     (if idx * ch \<le> k \<and> k < idx * ch + n \<and> k < length U then src ! k else U ! k)"
proof (induction n)
  case 0 show ?case by auto
next
  case (Suc n)
  have len: "length (fold (\<lambda>c U. U[idx * ch + c := src ! (idx * ch + c)]) [0..<n] U) = length U"
    by (rule fold_invariant[where P = "\<lambda>V. length V = length U"]) simp_all
  show ?case
  proof (cases "k = idx * ch + n")
    case True
    then show ?thesis using len Suc
      by (cases "k < length U") (simp_all add: list_update_beyond)
  next
    case False
    then have "(k < idx * ch + Suc n) = (k < idx * ch + n)" by auto
    with False Suc show ?thesis by simp
  qed
qed

lemma clamp_known_nth:
  "clamp_known d idx U ! k =
     (if idx * C d \<le> k \<and> k < idx * C d + C d \<and> k < length U then data d ! k else U ! k)"
  unfolding clamp_known_def by (rule clamp_known_upto)

lemma clamp_known_id: "clamp_known d idx (data d) = data d"
  unfolding clamp_known_def
  by (rule fold_invariant[where P = "\<lambda>V. V = data d"]) simp_all

subsection \<open>Unknown pixels: what a channel update touches\<close>

lemma relax_channel_length: "length (fst (relax_channel d y x c st)) = length (fst st)"
  by (simp add: relax_channel_def Let_def split: prod.splits)

lemma relax_channel_frame:
  "k \<noteq> (y * W d + x) * C d + c \<Longrightarrow> fst (relax_channel d y x c st) ! k = fst st ! k"
  by (simp add: relax_channel_def Let_def split: prod.splits)

lemma relax_fold_length: "length (fst (fold (relax_channel d y x) cs st)) = length (fst st)"
  by (rule fold_invariant[where P = "\<lambda>s. length (fst s) = length (fst st)"])
     (simp_all add: relax_channel_length)

lemma relax_fold_frame:
  "\<forall>c \<in> set cs. k \<noteq> (y * W d + x) * C d + c \<Longrightarrow>
   fst (fold (relax_channel d y x) cs st) ! k = fst st ! k"
  by (rule fold_invariant[where P = "\<lambda>s. fst s ! k = fst st ! k"])
     (simp_all add: relax_channel_frame)

subsection \<open>A pixel step touches only its own samples\<close>

lemma sweep_pixel_length: "length (fst (sweep_pixel d kn y x st)) = length (fst st)"
  by (simp add: sweep_pixel_def clamp_known_length relax_fold_length split: prod.splits)

lemma sweep_pixel_frame:
  assumes "k < (y * W d + x) * C d \<or> (y * W d + x) * C d + C d \<le> k"
  shows "fst (sweep_pixel d kn y x st) ! k = fst st ! k"
proof (cases "mask_is kn (y * W d + x) 1")
  case True
  with assms show ?thesis
    by (auto simp: sweep_pixel_def clamp_known_nth split: prod.splits)
next
  case False
  have "\<forall>c \<in> set [0..<C d]. k \<noteq> (y * W d + x) * C d + c" using assms by auto
  with False show ?thesis by (simp add: sweep_pixel_def relax_fold_frame)
qed

lemma pixel_ranges_disjoint:
  assumes "i \<noteq> i'" "c < ch"
  shows "i * ch + c < i' * ch \<or> i' * ch + ch \<le> i * ch + (c::nat)"
proof (cases "i < i'")
  case True
  then have "Suc i * ch \<le> i' * ch" by (intro mult_le_mono1) simp
  with assms show ?thesis by simp
next
  case False
  with assms have "Suc i' * ch \<le> i * ch" by (intro mult_le_mono1) simp
  then show ?thesis by simp
qed

lemma sweep_pixel_other:
  assumes "x < W d" "x' < W d" "c < C d" "y \<noteq> y' \<or> x \<noteq> x'"
  shows "fst (sweep_pixel d kn y' x' st) ! ((y * W d + x) * C d + c) = fst st ! ((y * W d + x) * C d + c)"
  using pixel_ranges_disjoint[OF pixel_neq[OF assms(1,2,4)] assms(3)]
  by (rule sweep_pixel_frame)

lemma pixels_fold_length:
  "length (fst (fold (sweep_pixel d kn y) xs st)) = length (fst st)"
  by (rule fold_invariant[where P = "\<lambda>s. length (fst s) = length (fst st)"])
     (simp_all add: sweep_pixel_length)

lemma pixels_fold_other:
  assumes "x < W d" "c < C d" "\<forall>x' \<in> set xs. x' < W d \<and> (y \<noteq> y' \<or> x \<noteq> x')"
  shows "fst (fold (sweep_pixel d kn y') xs st) ! ((y * W d + x) * C d + c) = fst st ! ((y * W d + x) * C d + c)"
  by (rule fold_invariant[where P = "\<lambda>s. fst s ! ((y * W d + x) * C d + c) = fst st ! ((y * W d + x) * C d + c)"])
     (use assms in \<open>simp_all add: sweep_pixel_other\<close>)

lemma sweep_row_length: "length (fst (sweep_row d kn y st)) = length (fst st)"
  by (simp add: sweep_row_def pixels_fold_length)

lemma sweep_row_other:
  assumes "x < W d" "c < C d" "y \<noteq> y'"
  shows "fst (sweep_row d kn y' st) ! ((y * W d + x) * C d + c) = fst st ! ((y * W d + x) * C d + c)"
  unfolding sweep_row_def using assms by (intro pixels_fold_other) simp_all

lemma rows_fold_length:
  "length (fst (fold (sweep_row d kn) ys st)) = length (fst st)"
  by (rule fold_invariant[where P = "\<lambda>s. length (fst s) = length (fst st)"])
     (simp_all add: sweep_row_length)

lemma rows_fold_other:
  assumes "x < W d" "c < C d" "y \<notin> set ys"
  shows "fst (fold (sweep_row d kn) ys st) ! ((y * W d + x) * C d + c) = fst st ! ((y * W d + x) * C d + c)"
proof -
  have ne: "\<And>y'. y' \<in> set ys \<Longrightarrow> y \<noteq> y'" using assms(3) by blast
  show ?thesis
  by (rule fold_invariant[where P = "\<lambda>s. fst s ! ((y * W d + x) * C d + c) = fst st ! ((y * W d + x) * C d + c)"])
     (use assms in \<open>simp_all add: sweep_row_other[OF assms(1,2)] ne\<close>)
qed

lemma sweep_length: "length (fst (sweep d kn U)) = length U"
  by (simp add: sweep_def rows_fold_length)

text \<open>The sweep, cut at pixel (y, x).\<close>

lemma sweep_at_pixel:
  assumes "y < H d" "x < W d" "c < C d"
  shows "fst (sweep d kn U) ! ((y * W d + x) * C d + c) =
         fst (sweep_pixel d kn y x
                (fold (sweep_pixel d kn y) [0..<x] (fold (sweep_row d kn) [0..<y] (U, 0, 0))))
           ! ((y * W d + x) * C d + c)"
proof -
  let ?k = "(y * W d + x) * C d + c"
  let ?s0 = "fold (sweep_row d kn) [0..<y] (U, 0, 0)"
  let ?s1 = "fold (sweep_pixel d kn y) [0..<x] ?s0"
  let ?s2 = "sweep_pixel d kn y x ?s1"
  have "sweep d kn U = fold (sweep_row d kn) [Suc y..<H d] (sweep_row d kn y ?s0)"
    by (simp add: sweep_def upt_split[OF assms(1)])
  then have "fst (sweep d kn U) ! ?k = fst (sweep_row d kn y ?s0) ! ?k"
    using assms by (simp add: rows_fold_other)
  also have "sweep_row d kn y ?s0 = fold (sweep_pixel d kn y) [Suc x..<W d] ?s2"
    by (simp add: sweep_row_def upt_split[OF assms(2)])
  also have "fst \<dots> ! ?k = fst ?s2 ! ?k"
    using assms by (intro pixels_fold_other) auto
  finally show ?thesis .
qed

lemma sweep_known_fixed:
  assumes "length U = H d * W d * C d" "y < H d" "x < W d" "c < C d"
    and "mask_is kn (y * W d + x) 1"
  shows "fst (sweep d kn U) ! ((y * W d + x) * C d + c) = data d ! ((y * W d + x) * C d + c)"
proof -
  let ?s1 = "fold (sweep_pixel d kn y) [0..<x] (fold (sweep_row d kn) [0..<y] (U, 0, 0))"
  obtain V t n where s1: "?s1 = (V, t, n)" by (cases ?s1)
  have "length (fst ?s1) = length U" by (simp add: pixels_fold_length rows_fold_length)
  with s1 assms(1) have "(y * W d + x) * C d + c < length V"
    using pixel_index_bound[OF assms(2,3,4)] by simp
  with assms s1 show ?thesis
    by (simp add: sweep_at_pixel sweep_pixel_def clamp_known_nth)
qed

subsection \<open>The outer loop\<close>

text \<open>
  What \<open>gs_loop\<close> returns: it performs some number \<open>n\<close> of sweeps, bounded by the
  iterations left; the residuals it appends are those of these sweeps; every sweep but
  the last left the residual at or above \<open>tol\<close>; and either the last sweep met the
  tolerance (the \<^verbatim>\<open>break\<close>, the counter is not incremented) or none did and the
  counter ran up to \<open>maxIter\<close>.
\<close>

lemma gs_loop_spec:
  "gs_loop d k m tol i U res = (i', U', res') \<Longrightarrow>
   \<exists>n. int n \<le> max 0 (m - i) \<and>
       U' = (sweep_data d k ^^ n) U \<and>
       res' = res @ map (\<lambda>j. residual_of d k ((sweep_data d k ^^ j) U)) [0..<n] \<and>
       (\<forall>j. Suc j < n \<longrightarrow> \<not> residual_of d k ((sweep_data d k ^^ j) U) < tol) \<and>
       ((0 < n \<and> residual_of d k ((sweep_data d k ^^ (n - 1)) U) < tol \<and> i' = i + int n - 1) \<or>
        ((\<forall>j<n. \<not> residual_of d k ((sweep_data d k ^^ j) U) < tol) \<and> int n = max 0 (m - i) \<and> i' = i + int n))"
proof (induction d k m tol i U res arbitrary: i' U' res' rule: gs_loop.induct)
  case (1 d k m tol i U res)
  show ?case
  proof (cases "i < m")
    case False
    with "1.prems" have "i' = i" "U' = U" "res' = res"
      by (simp_all add: gs_loop.simps[of d k m tol i U res])
    with False show ?thesis by (intro exI[of _ 0]) simp
  next
    case True
    note lt = this
    show ?thesis
    proof (cases "residual_of d k U < tol")
      case True
      with lt "1.prems" have "i' = i" "U' = sweep_data d k U" "res' = res @ [residual_of d k U]"
        by (simp_all add: gs_loop.simps[of d k m tol i U res] residual_of_def sweep_data_def Let_def)
      with True lt show ?thesis by (intro exI[of _ 1]) simp
    next
      case False
      with lt "1.prems" have eq: "gs_loop d k m tol (i + 1) (sweep_data d k U) (res @ [residual_of d k U]) = (i', U', res')"
        by (simp add: gs_loop.simps[of d k m tol i U res] residual_of_def sweep_data_def Let_def)
      from False lt have "\<not> avgChange (sweep d k U) < tol" by (simp add: residual_of_def)
      from "1.IH"[OF lt refl refl this eq[unfolded residual_of_def sweep_data_def]]
      obtain n where n: "int n \<le> max 0 (m - (i + 1))"
        "U' = (sweep_data d k ^^ n) (sweep_data d k U)"
        "res' = (res @ [residual_of d k U]) @ map (\<lambda>j. residual_of d k ((sweep_data d k ^^ j) (sweep_data d k U))) [0..<n]"
        "\<forall>j. Suc j < n \<longrightarrow> \<not> residual_of d k ((sweep_data d k ^^ j) (sweep_data d k U)) < tol"
        "(0 < n \<and> residual_of d k ((sweep_data d k ^^ (n - 1)) (sweep_data d k U)) < tol \<and> i' = i + 1 + int n - 1) \<or>
        ((\<forall>j<n. \<not> residual_of d k ((sweep_data d k ^^ j) (sweep_data d k U)) < tol) \<and> int n = max 0 (m - (i + 1)) \<and> i' = i + 1 + int n)"
        unfolding residual_of_def sweep_data_def by blast
      have shift: "\<And>j. (sweep_data d k ^^ j) (sweep_data d k U) = (sweep_data d k ^^ Suc j) U"
        by (simp add: funpow_swap1)
      have mp: "map (\<lambda>j. residual_of d k ((sweep_data d k ^^ j) U)) [0..<Suc n] =
            residual_of d k U # map (\<lambda>j. residual_of d k ((sweep_data d k ^^ Suc j) U)) [0..<n]"
        by (simp only: upt_conv_Cons[of 0 "Suc n"] map_Suc_upt[symmetric] list.map map_map o_def) simp
      show ?thesis
      proof (intro exI[of _ "Suc n"] conjI)
        show "int (Suc n) \<le> max 0 (m - i)" using n(1) lt by simp
        show "U' = (sweep_data d k ^^ Suc n) U" using n(2) shift by simp
        show "res' = res @ map (\<lambda>j. residual_of d k ((sweep_data d k ^^ j) U)) [0..<Suc n]"
          unfolding mp using n(3) shift by simp
        show "\<forall>j. Suc j < Suc n \<longrightarrow> \<not> residual_of d k ((sweep_data d k ^^ j) U) < tol"
        proof (intro allI impI)
          fix j assume "Suc j < Suc n"
          show "\<not> residual_of d k ((sweep_data d k ^^ j) U) < tol"
          proof (cases j)
            case 0 then show ?thesis using False by simp
          next
            case (Suc j')
            with \<open>Suc j < Suc n\<close> have "Suc j' < n" by simp
            with n(4) shift Suc show ?thesis by simp
          qed
        qed
        from n(5) show "(0 < Suc n \<and> residual_of d k ((sweep_data d k ^^ (Suc n - 1)) U) < tol \<and> i' = i + int (Suc n) - 1) \<or>
        ((\<forall>j<Suc n. \<not> residual_of d k ((sweep_data d k ^^ j) U) < tol) \<and> int (Suc n) = max 0 (m - i) \<and> i' = i + int (Suc n))"
        proof
          assume a: "0 < n \<and> residual_of d k ((sweep_data d k ^^ (n - 1)) (sweep_data d k U)) < tol \<and> i' = i + 1 + int n - 1"
          then have "(sweep_data d k ^^ (n - 1)) (sweep_data d k U) = (sweep_data d k ^^ n) U"
            using shift[of "n - 1"] by simp
          with a show ?thesis by simp
        next
          assume a: "(\<forall>j<n. \<not> residual_of d k ((sweep_data d k ^^ j) (sweep_data d k U)) < tol) \<and> int n = max 0 (m - (i + 1)) \<and> i' = i + 1 + int n"
          have "\<forall>j<Suc n. \<not> residual_of d k ((sweep_data d k ^^ j) U) < tol"
          proof (intro allI impI)
            fix j assume "j < Suc n"
            show "\<not> residual_of d k ((sweep_data d k ^^ j) U) < tol"
            proof (cases j)
              case 0 then show ?thesis using False by simp
            next
              case (Suc j')
              with \<open>j < Suc n\<close> have "j' < n" by simp
              with a shift Suc show ?thesis by simp
            qed
          qed
          moreover have "int (Suc n) = max 0 (m - i)" using a lt by simp
          moreover have "i' = i + int (Suc n)" using a by simp
          ultimately show ?thesis by blast
        qed
      qed
    qed
  qed
qed

lemma inpaint_fields:
  assumes "gs_loop d kn m tol 0 (data d) [] = (i', U', res')"
  shows "inpaintGaussSeidel d kn l b m tol =
          \<lparr>reconstructed = \<lparr>H = H d, W = W d, C = C d, data = U'\<rparr>, residuals = res',
           rmse = rmseOnMissing d \<lparr>H = H d, W = W d, C = C d, data = U'\<rparr> kn, iterations = i' + 1\<rparr>"
  using assms by (simp add: inpaintGaussSeidel_def Let_def)

lemma sweeps_length: "length ((sweep_data d kn ^^ n) U) = length U"
  by (induction n) (simp_all add: sweep_data_def sweep_length)

lemma sweeps_known_fixed:
  assumes "wf_tensor d" "i < H d * W d" "mask_is kn i 1" "c < C d"
  shows "(sweep_data d kn ^^ n) (data d) ! (i * C d + c) = data d ! (i * C d + c)"
proof (cases n)
  case 0 then show ?thesis by simp
next
  case (Suc n')
  from assms(2) have w: "0 < W d" by (cases "W d") simp_all
  from assms(2) have y: "i div W d < H d" by (simp add: less_mult_imp_div_less)
  from w have x: "i mod W d < W d" by simp
  have i: "i div W d * W d + i mod W d = i" by simp
  have len: "length ((sweep_data d kn ^^ n') (data d)) = H d * W d * C d"
    using assms(1) by (simp add: sweeps_length wf_tensor_def)
  from sweep_known_fixed[OF len y x assms(4), of kn] assms(3) i Suc show ?thesis
    by (simp add: sweep_data_def)
qed

lemma inpaint_spec:
  fixes d kn l b m tol
  defines "r \<equiv> inpaintGaussSeidel d kn l b m tol"
  defines "n \<equiv> length (residuals r)"
  shows "int n \<le> max 0 m"
    and "residuals r = map (\<lambda>j. residual_of d kn ((sweep_data d kn ^^ j) (data d))) [0..<n]"
    and "data (reconstructed r) = (sweep_data d kn ^^ n) (data d)"
    and "\<forall>j. Suc j < n \<longrightarrow> \<not> residuals r ! j < tol"
    and "(0 < n \<and> residuals r ! (n - 1) < tol \<and> iterations r = int n) \<or>
         ((\<forall>j<n. \<not> residuals r ! j < tol) \<and> int n = max 0 m \<and> iterations r = int n + 1)"
proof -
  obtain i' U' res' where g: "gs_loop d kn m tol 0 (data d) [] = (i', U', res')"
    by (cases "gs_loop d kn m tol 0 (data d) []")
  from gs_loop_spec[OF g] obtain k where k:
    "int k \<le> max 0 (m - 0)" "U' = (sweep_data d kn ^^ k) (data d)"
    "res' = [] @ map (\<lambda>j. residual_of d kn ((sweep_data d kn ^^ j) (data d))) [0..<k]"
    "\<forall>j. Suc j < k \<longrightarrow> \<not> residual_of d kn ((sweep_data d kn ^^ j) (data d)) < tol"
    "(0 < k \<and> residual_of d kn ((sweep_data d kn ^^ (k - 1)) (data d)) < tol \<and> i' = 0 + int k - 1) \<or>
     ((\<forall>j<k. \<not> residual_of d kn ((sweep_data d kn ^^ j) (data d)) < tol) \<and> int k = max 0 (m - 0) \<and> i' = 0 + int k)"
    by blast
  have r: "residuals r = res'" "data (reconstructed r) = U'" "iterations r = i' + 1"
    unfolding r_def inpaint_fields[OF g] by simp_all
  from k(3) r have nk: "n = k" by (simp add: n_def)
  show "int n \<le> max 0 m" using k(1) nk by simp
  show "residuals r = map (\<lambda>j. residual_of d kn ((sweep_data d kn ^^ j) (data d))) [0..<n]"
    using k(3) r nk by simp
  show "data (reconstructed r) = (sweep_data d kn ^^ n) (data d)" using k(2) r nk by simp
  have nth: "\<And>j. j < k \<Longrightarrow> residuals r ! j = residual_of d kn ((sweep_data d kn ^^ j) (data d))"
    using k(3) r by simp
  show "\<forall>j. Suc j < n \<longrightarrow> \<not> residuals r ! j < tol"
    using k(4) nth nk by simp
  from k(5) show "(0 < n \<and> residuals r ! (n - 1) < tol \<and> iterations r = int n) \<or>
         ((\<forall>j<n. \<not> residuals r ! j < tol) \<and> int n = max 0 m \<and> iterations r = int n + 1)"
  proof
    assume a: "0 < k \<and> residual_of d kn ((sweep_data d kn ^^ (k - 1)) (data d)) < tol \<and> i' = 0 + int k - 1"
    then have "residuals r ! (k - 1) < tol" using nth[of "k - 1"] by simp
    with a r nk show ?thesis by simp
  next
    assume a: "(\<forall>j<k. \<not> residual_of d kn ((sweep_data d kn ^^ j) (data d)) < tol) \<and> int k = max 0 (m - 0) \<and> i' = 0 + int k"
    with nth r nk show ?thesis by simp
  qed
qed

lemma sweep_all_known:
  assumes "\<forall>i < H d * W d. mask_is kn i 1"
  shows "sweep d kn (data d) = (data d, 0, 0)"
  unfolding sweep_def
proof (rule fold_invariant[where P = "\<lambda>s. s = (data d, 0, 0)"])
  fix y and s :: sweep_state assume y: "y \<in> set [0..<H d]" and s: "s = (data d, 0, 0)"
  show "sweep_row d kn y s = (data d, 0, 0)"
    unfolding sweep_row_def
  proof (rule fold_invariant[where P = "\<lambda>s. s = (data d, 0, 0)"])
    fix x and s :: sweep_state assume x: "x \<in> set [0..<W d]" and s: "s = (data d, 0, 0)"
    from x y have "y * W d + x < H d * W d"
      using pixel_index_bound[of y "H d" x "W d" 0 1] by simp
    with assms have "mask_is kn (y * W d + x) 1" by simp
    then show "sweep_pixel d kn y x s = (data d, 0, 0)"
      by (simp add: sweep_pixel_def s clamp_known_id)
  qed (rule s)
qed simp

lemma loop_all_known:
  assumes "\<forall>i < H d * W d. mask_is kn i 1" and "0 < tol" and "1 \<le> maxIter"
  shows "gs_loop d kn maxIter tol 0 (data d) [] = (0, data d, [0])"
  using assms(2,3) by (subst gs_loop.simps) (simp add: sweep_all_known[OF assms(1)] avgChange_def)

subsection \<open>The update of an unknown sample\<close>

text \<open>
  The clamped neighbour coordinates spelled out, the value one channel update stores,
  and the value the whole sweep leaves at an unknown sample, in terms of the buffer at
  the moment the sweep reaches the pixel. The last fact says that pixels the sweep has
  not reached yet still hold the values of the previous iteration.
\<close>

lemma neighbors_clamped:
  "y < h \<Longrightarrow> x < w \<Longrightarrow>
   neighbors h w y x =
     [(if y = 0 then y else y - 1, x), (if y + 1 < h then y + 1 else y, x),
      (y, if x = 0 then x else x - 1), (y, if x + 1 < w then x + 1 else x)]"
  by (auto simp: neighbors_def)

lemma relax_channel_value:
  assumes "y < H d" "x < W d" "(y * W d + x) * C d + c < length U"
  shows "fst (relax_channel d y x c (U, t, n)) ! ((y * W d + x) * C d + c) =
     U ! ((y * W d + x) * C d + c)
     + 1.25 * ((U ! (((if y = 0 then y else y - 1) * W d + x) * C d + c)
              + U ! (((if y + 1 < H d then y + 1 else y) * W d + x) * C d + c)
              + U ! ((y * W d + (if x = 0 then x else x - 1)) * C d + c)
              + U ! ((y * W d + (if x + 1 < W d then x + 1 else x)) * C d + c)) / 4
             - U ! ((y * W d + x) * C d + c))"
  using assms(3)
  by (simp add: relax_channel_def Let_def neighbors_clamped[OF assms(1,2)] omega_def)

lemma relax_pixel_value:
  assumes "y < H d" "x < W d" "c < C d" "(y * W d + x) * C d + c < length (fst st)"
  shows "fst (fold (relax_channel d y x) [0..<C d] st) ! ((y * W d + x) * C d + c) =
     fst st ! ((y * W d + x) * C d + c)
     + 1.25 * ((fst st ! (((if y = 0 then y else y - 1) * W d + x) * C d + c)
              + fst st ! (((if y + 1 < H d then y + 1 else y) * W d + x) * C d + c)
              + fst st ! ((y * W d + (if x = 0 then x else x - 1)) * C d + c)
              + fst st ! ((y * W d + (if x + 1 < W d then x + 1 else x)) * C d + c)) / 4
             - fst st ! ((y * W d + x) * C d + c))"
proof -
  let ?k = "(y * W d + x) * C d + c"
  let ?s1 = "fold (relax_channel d y x) [0..<c] st"
  obtain V t n where s1: "?s1 = (V, t, n)" by (cases ?s1)
  have same: "V ! (p * C d + c) = fst st ! (p * C d + c)" for p
  proof -
    have "\<forall>c' \<in> set [0..<c]. p * C d + c \<noteq> (y * W d + x) * C d + c'"
      using channel_index_neq[OF assms(3), of _ p "y * W d + x"] assms(3) by auto
    from relax_fold_frame[OF this, of st] s1 show ?thesis by simp
  qed
  have len: "?k < length V"
    using relax_fold_length[of d y x "[0..<c]" st] s1 assms(4) by simp
  have "fst (fold (relax_channel d y x) [0..<C d] st) ! ?k
      = fst (fold (relax_channel d y x) [Suc c..<C d] (relax_channel d y x c ?s1)) ! ?k"
    by (simp add: upt_split[OF assms(3)])
  also have "\<dots> = fst (relax_channel d y x c ?s1) ! ?k"
    by (rule relax_fold_frame) auto
  also have "\<dots> = V ! ?k
     + 1.25 * ((V ! (((if y = 0 then y else y - 1) * W d + x) * C d + c)
              + V ! (((if y + 1 < H d then y + 1 else y) * W d + x) * C d + c)
              + V ! ((y * W d + (if x = 0 then x else x - 1)) * C d + c)
              + V ! ((y * W d + (if x + 1 < W d then x + 1 else x)) * C d + c)) / 4
             - V ! ?k)"
    unfolding s1 by (rule relax_channel_value[OF assms(1,2) len])
  finally show ?thesis by (simp only: same)
qed

lemma sweep_unknown_value:
  assumes "length U = H d * W d * C d" "y < H d" "x < W d" "c < C d"
    and "\<not> mask_is kn (y * W d + x) 1"
  shows "fst (sweep d kn U) ! ((y * W d + x) * C d + c) =
     before_pixel d kn U y x ! ((y * W d + x) * C d + c)
     + 1.25 * ((before_pixel d kn U y x ! (((if y = 0 then y else y - 1) * W d + x) * C d + c)
              + before_pixel d kn U y x ! (((if y + 1 < H d then y + 1 else y) * W d + x) * C d + c)
              + before_pixel d kn U y x ! ((y * W d + (if x = 0 then x else x - 1)) * C d + c)
              + before_pixel d kn U y x ! ((y * W d + (if x + 1 < W d then x + 1 else x)) * C d + c)) / 4
             - before_pixel d kn U y x ! ((y * W d + x) * C d + c))"
proof -
  let ?s1 = "fold (sweep_pixel d kn y) [0..<x] (fold (sweep_row d kn) [0..<y] (U, 0, 0))"
  have "length (fst ?s1) = length U" by (simp add: pixels_fold_length rows_fold_length)
  with assms(1) have len: "(y * W d + x) * C d + c < length (fst ?s1)"
    using pixel_index_bound[OF assms(2,3,4)] by simp
  have "fst (sweep d kn U) ! ((y * W d + x) * C d + c)
      = fst (fold (relax_channel d y x) [0..<C d] ?s1) ! ((y * W d + x) * C d + c)"
    using assms(5) by (simp add: sweep_at_pixel[OF assms(2,3,4)] sweep_pixel_def)
  also note relax_pixel_value[OF assms(2,3,4) len]
  finally show ?thesis by (simp only: before_pixel_def)
qed

lemma before_pixel_not_yet:
  assumes "x \<le> W d" "x' < W d" "c < C d" "y < y' \<or> (y = y' \<and> x \<le> x')"
  shows "before_pixel d kn U y x ! ((y' * W d + x') * C d + c) = U ! ((y' * W d + x') * C d + c)"
proof -
  have "before_pixel d kn U y x ! ((y' * W d + x') * C d + c)
      = fst (fold (sweep_row d kn) [0..<y] (U, 0, 0)) ! ((y' * W d + x') * C d + c)"
    unfolding before_pixel_def using assms by (intro pixels_fold_other) auto
  also have "\<dots> = fst (U, 0::real, 0::nat) ! ((y' * W d + x') * C d + c)"
    using assms by (intro rows_fold_other) auto
  finally show ?thesis by simp
qed

subsection \<open>The metric as a sum\<close>

lemma sq_fold:
  "fold (sq_channel orig rec ch i) [0..<m] s =
     s + (\<Sum>c\<leftarrow>[0..<m]. (data orig ! (i * ch + c) - data rec ! (i * ch + c))\<^sup>2)"
  by (induction m) (simp_all add: sq_channel_def power2_eq_square Let_def)

lemma rmse_fold:
  "fold (rmse_pixel orig rec kn ch) [0..<n] (s, cnt) =
     (s + (\<Sum>i\<leftarrow>filter (\<lambda>i. mask_is kn i 0) [0..<n].
             \<Sum>c\<leftarrow>[0..<ch]. (data orig ! (i * ch + c) - data rec ! (i * ch + c))\<^sup>2),
      cnt + length (filter (\<lambda>i. mask_is kn i 0) [0..<n]) * ch)"
  by (induction n) (simp_all add: rmse_pixel_def sq_fold)

subsection \<open>The damaged view is black at unknown pixels\<close>

lemma blacken_length: "length (blacken kn i d) = length d"
  by (simp add: blacken_def)

lemma blacken_fold_length: "length (fold (blacken kn) is d) = length d"
  by (rule fold_invariant[where P = "\<lambda>e. length e = length d"]) (simp_all add: blacken_length)

lemma update_zero_keeps_zero: "k < length d \<Longrightarrow> d ! k = 0 \<Longrightarrow> d[a := 0] ! k = (0::real)"
  by (cases "a = k") simp_all

lemma blacken_keeps_zero: "k < length d \<Longrightarrow> d ! k = 0 \<Longrightarrow> blacken kn j d ! k = 0"
  by (simp add: blacken_def update_zero_keeps_zero)

lemma blacken_fold_keeps_zero:
  "k < length d \<Longrightarrow> d ! k = 0 \<Longrightarrow> fold (blacken kn) js d ! k = 0"
  by (rule fold_invariant[where P = "\<lambda>e. length e = length d \<and> e ! k = 0", THEN conjunct2])
     (simp_all add: blacken_length blacken_keeps_zero)

lemma blacken_sets_zero:
  "mask_is kn i 0 \<Longrightarrow> c < 3 \<Longrightarrow> i * 3 + c < length d \<Longrightarrow> blacken kn i d ! (i * 3 + c) = 0"
  by (auto simp: blacken_def nth_list_update less_Suc_eq numeral_3_eq_3)

lemma damaged_unknown_zero:
  assumes "wf_tensor src" "C src = 3" "i < H src * W src" "mask_is kn i 0" "c < 3"
  shows "data (makeDamagedView src kn) ! (i * 3 + c) = 0"
proof -
  let ?d1 = "fold (blacken kn) [0..<i] (data src)"
  from assms have "Suc i * 3 \<le> H src * W src * 3" by (intro mult_le_mono1) simp
  with assms have k: "i * 3 + c < length (data src)" by (simp add: wf_tensor_def)
  then have k1: "i * 3 + c < length (blacken kn i ?d1)" by (simp add: blacken_length blacken_fold_length)
  have "blacken kn i ?d1 ! (i * 3 + c) = 0"
    using assms(4,5) k by (intro blacken_sets_zero) (simp_all add: blacken_fold_length)
  with k1 have "fold (blacken kn) [Suc i..<H src * W src] (blacken kn i ?d1) ! (i * 3 + c) = 0"
    by (rule blacken_fold_keeps_zero)
  then show ?thesis by (simp add: makeDamagedView_def upt_split[OF assms(3)])
qed

lemma makeDamagedView_dims [simp]:
  "H (makeDamagedView src kn) = H src" "W (makeDamagedView src kn) = W src"
  "C (makeDamagedView src kn) = C src"
  by (simp_all add: makeDamagedView_def)

lemma inpaint_rmse:
  "rmse (inpaintGaussSeidel d kn l b m tol) =
     rmseOnMissing d (reconstructed (inpaintGaussSeidel d kn l b m tol)) kn"
  by (cases "gs_loop d kn m tol 0 (data d) []") (simp add: inpaintGaussSeidel_def Let_def)

lemma rmseOnMissing_sum:
  "rmseOnMissing orig rec kn =
     (let unknown = filter (\<lambda>i. mask_is kn i 0) [0..<H orig * W orig];
          terms = length unknown * C orig
      in if terms = 0 then 0
         else sqrt ((\<Sum>i\<leftarrow>unknown. \<Sum>c\<leftarrow>[0..<C orig].
                       (data orig ! (i * C orig + c) - data rec ! (i * C orig + c))\<^sup>2)
                    / real terms))"
  by (simp add: rmseOnMissing_def rmse_fold Let_def)

subsection \<open>The painted count\<close>

lemma paintedCount_fold: "fold (\<lambda>val sum. sum + unat val) m a = a + sum_list (map unat m)"
  by (induction m arbitrary: a) simp_all

lemma paintedCount_zero_iff: "paintedCount m = 0 \<longleftrightarrow> (\<forall>v \<in> set m. v = 0)"
  by (simp add: paintedCount_def paintedCount_fold unat_eq_0)

lemma invert_binary:
  "\<forall>v \<in> set paint. v = 0 \<or> v = 1 \<Longrightarrow> invert_mask paint = map (\<lambda>v. 1 - v) paint"
  by (auto simp: invert_mask_def)

subsection \<open>Evaluation on the concrete inputs\<close>

lemma upt3: "[0..<3] = [0, 1, 2]"
  by (simp add: upt_rec)

lemma upt2: "[0..<2] = [0, 1]"
  by (simp add: upt_rec)

lemma sweep_damaged2:
  "sweep damaged2 right_unknown (data damaged2) = ([1, 1, 1, 5/16, 5/16, 5/16], 15/16, 3)"
  by (simp add: sweep_def sweep_row_def sweep_pixel_def damaged2_def right_unknown_def mask_is_def
      clamp_known_def relax_channel_def neighbors_def omega_def upt2 upt3 Let_def)

lemma loop_damaged2:
  "gs_loop damaged2 right_unknown 1 (1/10000) 0 (data damaged2) [] = (1, [1, 1, 1, 5/16, 5/16, 5/16], [5/16])"
  apply (subst gs_loop.simps)
  apply (simp add: sweep_damaged2 avgChange_def)
  apply (subst gs_loop.simps)
  apply simp
  done

lemma white2_all_known: "\<forall>i < H white2 * W white2. mask_is all_known i 1"
  by (auto simp: white2_def all_known_def mask_is_def less_2_cases_iff)

lemma damaged2_sel:
  "H damaged2 = 1" "W damaged2 = 2" "C damaged2 = 3" "data damaged2 = [1, 1, 1, 0, 0, 0]"
  by (simp_all add: damaged2_def)

lemma damaged2_view: "makeDamagedView white2 right_unknown = damaged2"
  by (simp add: makeDamagedView_def white2_def right_unknown_def damaged2_def blacken_def mask_is_def upt2)

section \<open>Claims\<close>

subsection \<open>The unused weights\<close>

text \<open>
  C5. The fidelity weight \<open>lambda\<close> and the smoothness weight \<open>beta\<close> have no effect:
  two calls that agree on the damaged tensor, the mask, \<open>maxIter\<close> and \<open>tol\<close> return the
  same result (reconstructed tensor, residuals, RMSE and iteration count), whatever the
  two weights are.
\<close>

theorem weights_have_no_effect:
  "inpaintGaussSeidel damaged known lambda1 beta1 maxIter tol =
   inpaintGaussSeidel damaged known lambda2 beta2 maxIter tol"
  by (simp add: inpaintGaussSeidel_def)

subsection \<open>Iteration count\<close>

text \<open>
  C2. With \<open>maxIter \<ge> 1\<close> the reported iteration count is claimed to be the number of
  sweeps completed and to lie in \<open>[1, maxIter]\<close>. On the damaged white image with
  \<open>maxIter = 1\<close> and \<open>tol = 0.0001\<close> the only sweep leaves the residual \<open>0.3125\<close>, the
  loop runs out, and the result reports \<open>2\<close> iterations for the one sweep whose
  residual it holds: \<open>iter + 1\<close> counts the sweeps only when the loop is left by
  \<^verbatim>\<open>break\<close>.
\<close>

theorem iterations_off_by_one:
  "residuals (inpaintGaussSeidel damaged2 right_unknown (1/2) (3/2) 1 (1/10000)) = [5/16]
   \<and> iterations (inpaintGaussSeidel damaged2 right_unknown (1/2) (3/2) 1 (1/10000)) = 2"
  by (simp add: inpaint_fields[OF loop_damaged2])

subsection \<open>Known pixels\<close>

text \<open>
  C4. In a well-formed damaged tensor, for every pixel \<open>i\<close> of the image with
  \<open>known[i] = 1\<close> and every channel \<open>c\<close>, the sample of the working buffer after any
  number \<open>n\<close> of sweeps is the damaged sample, and so is the sample of the tensor that
  \<open>inpaintGaussSeidel\<close> returns.
\<close>

theorem known_pixels_never_altered:
  assumes "wf_tensor damaged" and "i < H damaged * W damaged" and "mask_is known i 1"
    and "c < C damaged"
  shows "(sweep_data damaged known ^^ n) (data damaged) ! (i * C damaged + c)
           = data damaged ! (i * C damaged + c)
         \<and> data (reconstructed (inpaintGaussSeidel damaged known lambda beta maxIter tol))
             ! (i * C damaged + c)
           = data damaged ! (i * C damaged + c)"
  using assms by (simp add: sweeps_known_fixed inpaint_spec(3))

theorem known_pixels_never_altered_witness:
  "wf_tensor damaged2 \<and> 0 < H damaged2 * W damaged2 \<and> mask_is right_unknown 0 1
   \<and> 1 < C damaged2
   \<and> (sweep_data damaged2 right_unknown ^^ 2) (data damaged2) ! (0 * C damaged2 + 1)
       = data damaged2 ! (0 * C damaged2 + 1)
   \<and> data (reconstructed (inpaintGaussSeidel damaged2 right_unknown (1/2) (3/2) 100 (1/10000)))
         ! (0 * C damaged2 + 1)
       = data damaged2 ! (0 * C damaged2 + 1)"
proof -
  have h: "wf_tensor damaged2" "0 < H damaged2 * W damaged2" "mask_is right_unknown 0 1"
    "1 < C damaged2"
    by (simp_all add: wf_tensor_def damaged2_def right_unknown_def mask_is_def)
  from known_pixels_never_altered[OF h, where n = 2 and lambda = "1/2" and beta = "3/2"
      and maxIter = 100 and tol = "1/10000"] h
  show ?thesis by blast
qed

subsection \<open>Termination and the bound on the sweeps\<close>

text \<open>
  C6, as stated: the loop performs fewer than \<open>maxIter\<close> sweeps if and only if some
  sweep's residual is below \<open>tol\<close>. With every pixel known and \<open>maxIter = 1\<close> the one
  sweep has residual \<open>0\<close>, below \<open>tol = 0.0001\<close>, and the loop has performed
  \<open>maxIter\<close> sweeps, not fewer.
\<close>

theorem fewer_sweeps_iff_counterexample:
  "residuals (inpaintGaussSeidel white2 all_known (1/2) (3/2) 1 (1/10000)) = [0]
   \<and> (0::real) < 1/10000
   \<and> \<not> int (length (residuals (inpaintGaussSeidel white2 all_known (1/2) (3/2) 1 (1/10000)))) < 1"
proof -
  have "gs_loop white2 all_known 1 (1/10000) 0 (data white2) [] = (0, data white2, [0])"
    by (rule loop_all_known[OF white2_all_known]) simp_all
  from inpaint_fields[OF this] show ?thesis by simp
qed

text \<open>
  C6, amended. \<open>gs_loop\<close> is a total function, so \<open>inpaintGaussSeidel\<close> returns a
  result on every input. Each sweep appends one residual, so the number of sweeps
  performed is the length of the residual sequence: the returned buffer is the damaged
  data after that many sweeps and the residuals are those of these sweeps. The loop
  performs at most \<open>maxIter\<close> sweeps (none when \<open>maxIter \<le> 0\<close>), and it performs
  fewer than \<open>maxIter\<close> if and only if some sweep before the \<open>maxIter\<close>-th has a
  residual below \<open>tol\<close>.
\<close>

theorem sweeps_bounded_by_maxIter:
  fixes damaged known lambda beta maxIter tol
  defines "r \<equiv> inpaintGaussSeidel damaged known lambda beta maxIter tol"
  shows "int (length (residuals r)) \<le> max 0 maxIter
       \<and> residuals r =
           map (\<lambda>j. residual_of damaged known ((sweep_data damaged known ^^ j) (data damaged)))
             [0..<length (residuals r)]
       \<and> data (reconstructed r) = (sweep_data damaged known ^^ length (residuals r)) (data damaged)
       \<and> (int (length (residuals r)) < maxIter
            \<longleftrightarrow> (\<exists>j<length (residuals r). int j + 1 < maxIter \<and> residuals r ! j < tol))"
proof -
  let ?n = "length (residuals r)"
  note s = inpaint_spec[of damaged known lambda beta maxIter tol, folded r_def]
  have "int ?n < maxIter \<longleftrightarrow> (\<exists>j<?n. int j + 1 < maxIter \<and> residuals r ! j < tol)"
  proof
    assume lt: "int ?n < maxIter"
    with s(5) have pos: "0 < ?n" and last: "residuals r ! (?n - 1) < tol" by auto
    from pos have "int (?n - 1) + 1 = int ?n" by linarith
    with lt have "int (?n - 1) + 1 < maxIter" by linarith
    moreover from pos have "?n - 1 < ?n" by linarith
    ultimately have "?n - 1 < ?n \<and> int (?n - 1) + 1 < maxIter \<and> residuals r ! (?n - 1) < tol"
      using last by blast
    then show "\<exists>j<?n. int j + 1 < maxIter \<and> residuals r ! j < tol" by blast
  next
    assume "\<exists>j<?n. int j + 1 < maxIter \<and> residuals r ! j < tol"
    then obtain j where j: "j < ?n" "int j + 1 < maxIter" "residuals r ! j < tol" by blast
    with s(4) have "\<not> Suc j < ?n" by blast
    with j show "int ?n < maxIter" by simp
  qed
  with s(1,2,3) show ?thesis by blast
qed

subsection \<open>No unknown pixel\<close>

text \<open>
  C8, as stated, asks for the residual sequence \<open>[0]\<close> whenever the mask is all ones
  and \<open>tol > 0\<close>. With \<open>maxIter = 0\<close> no sweep runs and the sequence is empty.
\<close>

theorem all_known_shortcut_counterexample:
  "mask_is all_known 0 1 \<and> mask_is all_known 1 1 \<and> H white2 * W white2 = 2
   \<and> (0::real) < 1/10000
   \<and> residuals (inpaintGaussSeidel white2 all_known (1/2) (3/2) 0 (1/10000)) \<noteq> [0]"
proof -
  have "gs_loop white2 all_known 0 (1/10000) 0 (data white2) [] = (0, data white2, [])"
    by (subst gs_loop.simps) simp
  from inpaint_fields[OF this] show ?thesis
    by (simp add: all_known_def mask_is_def white2_def)
qed

text \<open>
  C8, amended. If every pixel of the image is known (\<open>known[i] = 1\<close> for all
  \<open>i < H * W\<close>), \<open>tol > 0\<close> and \<open>maxIter \<ge> 1\<close>, then \<open>inpaintGaussSeidel\<close> returns the
  residual sequence \<open>[0]\<close>, the iteration count \<open>1\<close> and a reconstructed tensor equal
  to the damaged tensor.
\<close>

theorem all_known_shortcut:
  assumes "\<forall>i < H damaged * W damaged. mask_is known i 1" and "0 < tol" and "1 \<le> maxIter"
  shows "residuals (inpaintGaussSeidel damaged known lambda beta maxIter tol) = [0]
       \<and> iterations (inpaintGaussSeidel damaged known lambda beta maxIter tol) = 1
       \<and> reconstructed (inpaintGaussSeidel damaged known lambda beta maxIter tol) = damaged"
  using inpaint_fields[OF loop_all_known[OF assms]] by simp

theorem all_known_shortcut_witness:
  "mask_is all_known 0 1 \<and> mask_is all_known 1 1 \<and> H white2 * W white2 = 2
   \<and> (0::real) < 1/10000 \<and> (1::int) \<le> 100
   \<and> residuals (inpaintGaussSeidel white2 all_known (1/2) (3/2) 100 (1/10000)) = [0]
   \<and> iterations (inpaintGaussSeidel white2 all_known (1/2) (3/2) 100 (1/10000)) = 1
   \<and> reconstructed (inpaintGaussSeidel white2 all_known (1/2) (3/2) 100 (1/10000)) = white2"
proof -
  have h: "(0::real) < 1/10000" "(1::int) \<le> 100" by simp_all
  from all_known_shortcut[OF white2_all_known h, of "1/2" "3/2"] show ?thesis
    by (simp add: all_known_def mask_is_def white2_def)
qed

subsection \<open>The quality metric\<close>

text \<open>
  C9. \<open>rmseOnMissing\<close> sums the squared differences over all channels of every pixel
  \<open>i < H * W\<close> with \<open>known[i] = 0\<close>, divides by the number of these (pixel, channel)
  terms and returns the square root; when there is no such term, in particular when no
  pixel is unknown, it returns \<open>0\<close> and nothing is divided.
\<close>

theorem rmseOnMissing_formula:
  "rmseOnMissing original recon known =
     (let unknown = filter (\<lambda>i. mask_is known i 0) [0..<H original * W original];
          terms = length unknown * C original
      in if terms = 0 then 0
         else sqrt ((\<Sum>i\<leftarrow>unknown. \<Sum>c\<leftarrow>[0..<C original].
                       (data original ! (i * C original + c) - data recon ! (i * C original + c))\<^sup>2)
                    / real terms))"
  by (simp add: rmseOnMissing_def rmse_fold Let_def)

text \<open>
  C10. The \<open>rmse\<close> field of the result is \<open>rmseOnMissing\<close> with the damaged tensor as
  baseline. When the damaged tensor is the damaged view of a well-formed source with three
  channels, its samples at unknown pixels are \<open>0\<close>, and the field is the square root of
  the mean of the squared reconstructed samples over the unknown (pixel, channel) pairs,
  and \<open>0\<close> when no pixel is unknown.
\<close>

theorem rmse_field_is_against_damaged:
  assumes "wf_tensor source" and "C source = 3"
  shows "rmse (inpaintGaussSeidel (makeDamagedView source known) known lambda beta maxIter tol) =
           rmseOnMissing (makeDamagedView source known)
             (reconstructed (inpaintGaussSeidel (makeDamagedView source known) known lambda beta maxIter tol))
             known
       \<and> rmse (inpaintGaussSeidel (makeDamagedView source known) known lambda beta maxIter tol) =
           (let unknown = filter (\<lambda>i. mask_is known i 0) [0..<H source * W source];
                terms = length unknown * 3
            in if terms = 0 then 0
               else sqrt ((\<Sum>i\<leftarrow>unknown. \<Sum>c\<leftarrow>[0..<3].
                    (data (reconstructed (inpaintGaussSeidel (makeDamagedView source known) known
                             lambda beta maxIter tol)) ! (i * 3 + c))\<^sup>2)
                  / real terms))"
proof -
  let ?d = "makeDamagedView source known"
  let ?r = "inpaintGaussSeidel ?d known lambda beta maxIter tol"
  let ?unknown = "filter (\<lambda>i. mask_is known i 0) [0..<H source * W source]"
  have "(\<Sum>i\<leftarrow>?unknown. \<Sum>c\<leftarrow>[0..<3]. (data ?d ! (i * 3 + c) - data (reconstructed ?r) ! (i * 3 + c))\<^sup>2)
      = (\<Sum>i\<leftarrow>?unknown. \<Sum>c\<leftarrow>[0..<3]. (data (reconstructed ?r) ! (i * 3 + c))\<^sup>2)"
  proof (intro arg_cong[where f = sum_list] map_cong refl)
    fix i c assume "i \<in> set ?unknown" "c \<in> set [0..<3]"
    then have "data ?d ! (i * 3 + c) = 0"
      using assms by (intro damaged_unknown_zero) simp_all
    then show "(data ?d ! (i * 3 + c) - data (reconstructed ?r) ! (i * 3 + c))\<^sup>2
        = (data (reconstructed ?r) ! (i * 3 + c))\<^sup>2" by simp
  qed
  then show ?thesis
    unfolding inpaint_rmse[of ?d] rmseOnMissing_sum[of ?d] using assms(2) by (simp add: Let_def)
qed

theorem rmse_field_is_against_damaged_witness:
  "wf_tensor white2 \<and> C white2 = 3
   \<and> rmse (inpaintGaussSeidel (makeDamagedView white2 right_unknown) right_unknown (1/2) (3/2) 1 (1/10000))
       = 5/16"
proof -
  have h: "wf_tensor white2" "C white2 = 3" by (simp_all add: wf_tensor_def white2_def)
  have r: "reconstructed (inpaintGaussSeidel damaged2 right_unknown (1/2) (3/2) 1 (1/10000))
      = \<lparr>H = 1, W = 2, C = 3, data = [1, 1, 1, 5/16, 5/16, 5/16]\<rparr>"
    by (simp add: inpaint_fields[OF loop_damaged2] damaged2_sel)
  have u: "filter (\<lambda>i. mask_is right_unknown i 0) [0..<H white2 * W white2] = [1]"
    by (simp add: white2_def right_unknown_def mask_is_def upt2)
  from rmse_field_is_against_damaged[OF h, of right_unknown "1/2" "3/2" 1 "1/10000", THEN conjunct2]
  show ?thesis using h
    by (simp add: damaged2_view r u upt3 Let_def real_sqrt_divide power2_eq_square)
qed

text \<open>
  C1. The RMSE of the result is claimed to be computed against the undamaged source.
  For the white image with its right pixel unknown, one sweep fills the pixel with
  \<open>0.3125\<close>: the result reports the RMSE \<open>0.3125\<close>, the distance to the black of the
  damaged view, while the RMSE against the source is \<open>0.6875\<close>. \<open>inpaintGaussSeidel\<close>
  passes \<open>damaged\<close> where \<open>rmseOnMissing\<close> expects its parameter \<open>original\<close>.
\<close>

theorem rmse_not_against_source:
  "makeDamagedView white2 right_unknown = damaged2
   \<and> rmse (inpaintGaussSeidel damaged2 right_unknown (1/2) (3/2) 1 (1/10000)) = 5/16
   \<and> rmseOnMissing white2
        (reconstructed (inpaintGaussSeidel damaged2 right_unknown (1/2) (3/2) 1 (1/10000)))
        right_unknown = 11/16"
proof -
  have r: "inpaintGaussSeidel damaged2 right_unknown (1/2) (3/2) 1 (1/10000)
      = \<lparr>reconstructed = \<lparr>H = 1, W = 2, C = 3, data = [1, 1, 1, 5/16, 5/16, 5/16]\<rparr>,
         residuals = [5/16],
         rmse = rmseOnMissing damaged2 \<lparr>H = 1, W = 2, C = 3, data = [1, 1, 1, 5/16, 5/16, 5/16]\<rparr> right_unknown,
         iterations = 2\<rparr>"
    by (simp add: inpaint_fields[OF loop_damaged2] damaged2_sel)
  have a: "rmseOnMissing damaged2 \<lparr>H = 1, W = 2, C = 3, data = [1, 1, 1, 5/16, 5/16, 5/16]\<rparr> right_unknown = 5/16"
    by (simp add: rmseOnMissing_def rmse_pixel_def sq_channel_def damaged2_def right_unknown_def
        mask_is_def upt2 upt3 real_sqrt_divide)
  have b: "rmseOnMissing white2 \<lparr>H = 1, W = 2, C = 3, data = [1, 1, 1, 5/16, 5/16, 5/16]\<rparr> right_unknown = 11/16"
    by (simp add: rmseOnMissing_def rmse_pixel_def sq_channel_def white2_def right_unknown_def
        mask_is_def upt2 upt3 real_sqrt_divide)
  show ?thesis unfolding r using damaged2_view a b by simp
qed

subsection \<open>The manual mask\<close>

text \<open>
  C7. With an image loaded and the manual mask in use, for a paint mask of zeros and
  ones: if no pixel is painted, \<open>handleApplyDamage\<close> fails with \<open>EmptyMaskError\<close>, so
  no known mask is stored and no damaged view is computed; otherwise the known mask it
  stores is the complement of the paint mask, \<open>known[i] = 1 - paint[i]\<close> for every \<open>i\<close>,
  and the damaged view is computed from it.
\<close>

theorem manual_mask_is_complement:
  assumes "originalTensor s = Some t" and "useManualMask s" and "manualMask s = Some paint"
    and "\<forall>v \<in> set paint. v = 0 \<or> v = 1"
  shows "handleApplyDamage rnd s =
          (if \<forall>v \<in> set paint. v = 0 then Inl EmptyMaskError
           else Inr (s\<lparr>knownMask := Some (map (\<lambda>v. 1 - v) paint),
                       damagedTensor := Some (makeDamagedView t (map (\<lambda>v. 1 - v) paint)),
                       reconstructedTensor := None, shownResiduals := []\<rparr>))"
  using assms(1,2,3)
  by (simp add: handleApplyDamage_def paintedCount_zero_iff apply_known_def invert_binary[OF assms(4)])

theorem manual_mask_is_complement_witness:
  "originalTensor app_painted = Some white2 \<and> useManualMask app_painted
   \<and> manualMask app_painted = Some [0, 1]
   \<and> handleApplyDamage (\<lambda>i. 0) app_painted =
       Inr (app_painted\<lparr>knownMask := Some [1, 0], damagedTensor := Some damaged2,
                        reconstructedTensor := None, shownResiduals := []\<rparr>)
   \<and> originalTensor app_unpainted = Some white2 \<and> useManualMask app_unpainted
   \<and> manualMask app_unpainted = Some [0, 0]
   \<and> handleApplyDamage (\<lambda>i. 0) app_unpainted = Inl EmptyMaskError"
proof -
  have p: "originalTensor app_painted = Some white2" "useManualMask app_painted"
    "manualMask app_painted = Some [0, 1]" "\<forall>v \<in> set [0, 1 :: uint8]. v = 0 \<or> v = 1"
    by (simp_all add: app_painted_def)
  have u: "originalTensor app_unpainted = Some white2" "useManualMask app_unpainted"
    "manualMask app_unpainted = Some [0, 0]" "\<forall>v \<in> set [0, 0 :: uint8]. v = 0 \<or> v = 1"
    by (simp_all add: app_unpainted_def)
  have d: "makeDamagedView white2 [1, 0] = damaged2"
    using damaged2_view by (simp add: right_unknown_def)
  from manual_mask_is_complement[OF p, of "\<lambda>i. 0"] manual_mask_is_complement[OF u, of "\<lambda>i. 0"]
  show ?thesis using p(1,2,3) u(1,2,3) by (simp add: d)
qed

subsection \<open>The Gauss-Seidel update\<close>

text \<open>
  C3. In every iteration (the sweep that follows \<open>n\<close> completed sweeps, for any \<open>n\<close>),
  for every unknown pixel \<open>(y, x)\<close> of a well-formed damaged tensor and every channel
  \<open>c\<close>, the sample after the sweep is \<open>old + 1.25 * (mean - old)\<close>. Here \<open>old\<close> and the
  four neighbour samples are read from the buffer \<open>B\<close> as it is when the sweep reaches
  the pixel, that is with the rows above and the pixels to the left in the same row
  already updated in this sweep (in place, row-major); \<open>mean\<close> is the average of \<open>B\<close> at
  the neighbours up, down, left and right, where a coordinate that would leave the image
  is replaced by the pixel's own row or column.
\<close>

theorem gauss_seidel_sor_update:
  assumes "wf_tensor damaged" and "y < H damaged" and "x < W damaged" and "c < C damaged"
    and "\<not> mask_is known (y * W damaged + x) 1"
  shows
    "(let U = (sweep_data damaged known ^^ n) (data damaged);
          B = before_pixel damaged known U y x;
          smp = (\<lambda>ny nx. B ! ((ny * W damaged + nx) * C damaged + c));
          old = smp y x;
          mean = (smp (if y = 0 then y else y - 1) x
                  + smp (if y + 1 < H damaged then y + 1 else y) x
                  + smp y (if x = 0 then x else x - 1)
                  + smp y (if x + 1 < W damaged then x + 1 else x)) / 4
      in sweep_data damaged known U ! ((y * W damaged + x) * C damaged + c)
           = old + 1.25 * (mean - old))"
proof -
  have "length ((sweep_data damaged known ^^ n) (data damaged)) = H damaged * W damaged * C damaged"
    using assms(1) by (simp add: sweeps_length wf_tensor_def)
  from sweep_unknown_value[OF this assms(2-5)] show ?thesis
    by (simp add: Let_def sweep_data_def)
qed

theorem gauss_seidel_sor_update_witness:
  "wf_tensor damaged2 \<and> 0 < H damaged2 \<and> 1 < W damaged2 \<and> 0 < C damaged2
   \<and> \<not> mask_is right_unknown (0 * W damaged2 + 1) 1
   \<and> before_pixel damaged2 right_unknown (data damaged2) 0 1 = [1, 1, 1, 0, 0, 0]
   \<and> sweep_data damaged2 right_unknown (data damaged2) ! 3 = 0 + 1.25 * ((0 + 0 + 1 + 0) / 4 - 0)"
proof -
  have h: "wf_tensor damaged2" "0 < H damaged2" "1 < W damaged2" "0 < C damaged2"
    "\<not> mask_is right_unknown (0 * W damaged2 + 1) 1"
    by (simp_all add: wf_tensor_def damaged2_def right_unknown_def mask_is_def)
  have b: "before_pixel damaged2 right_unknown (data damaged2) 0 1 = [1, 1, 1, 0, 0, 0]"
    by (simp add: before_pixel_def sweep_pixel_def clamp_known_def damaged2_def right_unknown_def
        mask_is_def upt3)
  note t = gauss_seidel_sor_update[OF h, of 0, unfolded Let_def funpow_0 b]
  from t show ?thesis
    using h b by (simp add: damaged2_sel)
qed

end
